theory Spec2Isabelle
  imports Main "HOL-Library.Word"
begin

unbundle bit_operations_syntax

section \<open>The TLV decoder of \<^verbatim>\<open>decode.go\<close>\<close>

text \<open>
  The decoder reads Type-Length-Value records from a byte stream and stores them into a Go
  value that it inspects through \<^verbatim>\<open>reflect\<close>. The embedding follows \<^verbatim>\<open>decode.go\<close> function by
  function:
  \<^item> a stream (\<^verbatim>\<open>io.Reader\<close>, \<^verbatim>\<open>tlv.Reader\<close>) is the list of the bytes not yet consumed, and every
    function that reads returns the stream it leaves behind, on success and on error;
  \<^item> an \<^verbatim>\<open>error\<close> result is an \<open>err option\<close> (\<open>None\<close> for \<^verbatim>\<open>nil\<close>); a run-time panic of
    \<^verbatim>\<open>reflect\<close> is the separate outcome \<open>Panicked\<close>, because no \<^verbatim>\<open>if err != nil\<close> of the
    code can swallow it;
  \<^item> a \<^verbatim>\<open>reflect.Value\<close> is a \<open>val\<close> together with the two flags the code depends on:
    addressable (\<open>addr\<close>) and obtained through an unexported field (\<open>ro\<close>);
    \<^verbatim>\<open>CanSet()\<close> is \<open>addr \<and> \<not> ro\<close>;
  \<^item> the in-place updates of the destination are returned as the updated \<open>val\<close>, also
    when the call ends in an error (the destination is then partially written).
\<close>

subsection \<open>Bytes, errors, outcomes\<close>

type_synonym byte = "8 word"
type_synonym u64 = "64 word"

text \<open>
  \<open>EOF\<close> and \<open>ErrUnexpectedEOF\<close> are the two errors of \<^verbatim>\<open>io.ReadFull\<close> on a stream that ends;
  the next three are the package's own error values; \<open>ErrParseTag\<close> stands for the error of
  \<^verbatim>\<open>parseTag\<close>.
\<close>

datatype err =
    EOF
  | ErrUnexpectedEOF
  | ErrPacketTooLarge
  | ErrNotSupported
  | ErrUnexpectedType
  | ErrParseTag
  | ErrUser nat

datatype 'a outcome = Panicked | Returned "err option" 'a

definition maxSize :: nat where
  "maxSize = 8800"

subsection \<open>Go values as \<^verbatim>\<open>reflect\<close> sees them\<close>

text \<open>
  \<open>structTag\<close> is the result of \<^verbatim>\<open>parseTag\<close> on a field's tag string. \<^verbatim>\<open>parseTag\<close> itself is
  not part of \<^verbatim>\<open>decode.go\<close>: every struct field carries the result of parsing its (static) tag,
  \<open>None\<close> when \<^verbatim>\<open>parseTag\<close> returns an error.
\<close>

record structTag =
  Type :: u64
  Optional :: bool
  Implicit :: bool

text \<open>
  A value carries what the decoder reads from its type:
  \<^item> a slice and a pointer carry the zero value of their element type, which is what
    \<^verbatim>\<open>reflect.New(value.Type().Elem()).Elem()\<close> yields;
  \<^item> a struct is the list of its fields in declaration order: exported or not, the parsed
    tag, the field's value;
  \<^item> \<open>VNamed n x\<close> is a value of the defined type \<open>n\<close> whose underlying value is \<open>x\<close>;
    methods belong to names;
  \<^item> \<open>VOther\<close> is a value of any kind the decoder has no case for (signed integers, floats,
    maps, ...); \<open>VInvalid\<close> is the zero \<^verbatim>\<open>reflect.Value\<close>, which \<^verbatim>\<open>Elem()\<close> yields on a nil
    pointer.
\<close>

datatype val =
    VBool bool
  | VUint64 u64
  | VUint8 byte
  | VString "byte list"
  | VSlice val "val list"
  | VPtr val "val option"
  | VStruct "field list"
  | VNamed string val
  | VOther
  | VInvalid
and field = Field (exported: bool) (tag: "structTag option") (fval: val)

datatype kind = KBool | KUint64 | KUint8 | KString | KSlice | KPtr | KStruct | KOther | KInvalid

fun Kind :: "val \<Rightarrow> kind" where
  "Kind (VBool _) = KBool"
| "Kind (VUint64 _) = KUint64"
| "Kind (VUint8 _) = KUint8"
| "Kind (VString _) = KString"
| "Kind (VSlice _ _) = KSlice"
| "Kind (VPtr _ _) = KPtr"
| "Kind (VStruct _) = KStruct"
| "Kind (VNamed _ x) = Kind x"
| "Kind VOther = KOther"
| "Kind VInvalid = KInvalid"

fun underlying :: "val \<Rightarrow> val" where
  "underlying (VNamed _ x) = underlying x"
| "underlying x = x"

text \<open>A \<^verbatim>\<open>Set...\<close> call replaces the underlying value and keeps the defined type.\<close>

fun withUnderlying :: "val \<Rightarrow> val \<Rightarrow> val" where
  "withUnderlying (VNamed n x) u = VNamed n (withUnderlying x u)"
| "withUnderlying _ u = u"

text \<open>\<^verbatim>\<open>value.Type().Elem().Kind()\<close>, which the code asks of slices only.\<close>

fun elemKind :: "val \<Rightarrow> kind" where
  "elemKind (VNamed _ x) = elemKind x"
| "elemKind (VSlice z _) = Kind z"
| "elemKind (VPtr z _) = Kind z"
| "elemKind _ = KInvalid"

text \<open>\<^verbatim>\<open>value.Elem()\<close> of a pointer: the referent, or the zero \<^verbatim>\<open>reflect.Value\<close> when it is nil.\<close>

fun Elem :: "val option \<Rightarrow> val" where
  "Elem None = VInvalid"
| "Elem (Some x) = x"

subsection \<open>The environment: \<^verbatim>\<open>Peek\<close> at the end of the stream, and the types' methods\<close>

text \<open>
  Two things the decoder calls are not in \<^verbatim>\<open>decode.go\<close> and are parameters of the model:
  \<^item> \<open>peekEOF\<close>, the number \<^verbatim>\<open>Reader.Peek\<close> returns when no type number can be read;
  \<^item> \<open>UnmarshalBinary\<close>, the \<^verbatim>\<open>UnmarshalBinary\<close> methods of the program's defined types, by
    type name: the receiver kind of the declaration (\<^verbatim>\<open>func (s T)\<close> or \<^verbatim>\<open>func (s *T)\<close>) and
    the method body. The body of a value-receiver method gets the \<open>T\<close> value, the body of a
    pointer-receiver method gets the pointer; it returns its error and the receiver as it
    leaves it, or panics.
\<close>

datatype receiver = ByValue | ByPointer

record env =
  peekEOF :: u64
  UnmarshalBinary :: "string \<Rightarrow> (receiver \<times> (byte list \<Rightarrow> val \<Rightarrow> val outcome)) option"

subsection \<open>Reading from the stream\<close>

text \<open>
  \<^verbatim>\<open>io.ReadFull(buf, b)\<close> with \<open>n = len(b)\<close>: the \<open>n\<close> bytes, or \<^verbatim>\<open>io.EOF\<close> when the stream is
  already at its end, or \<^verbatim>\<open>io.ErrUnexpectedEOF\<close> when it ends before \<open>n\<close> bytes; a short read
  consumes what was left. Reading zero bytes always succeeds.
\<close>

definition readFull :: "nat \<Rightarrow> byte list \<Rightarrow> (err + byte list) \<times> byte list" where
  "readFull n buf =
     (if n \<le> length buf then (Inr (take n buf), drop n buf)
      else (Inl (if buf = [] then EOF else ErrUnexpectedEOF), []))"

text \<open>\<^verbatim>\<open>binary.BigEndian.Uint16\<close>, \<^verbatim>\<open>Uint32\<close> and \<^verbatim>\<open>Uint64\<close>, as the standard library writes them.\<close>

definition Uint16 :: "byte list \<Rightarrow> 16 word" where
  "Uint16 b = ucast (b ! 1) OR push_bit 8 (ucast (b ! 0))"

definition Uint32 :: "byte list \<Rightarrow> 32 word" where
  "Uint32 b = ucast (b ! 3) OR push_bit 8 (ucast (b ! 2)) OR push_bit 16 (ucast (b ! 1))
     OR push_bit 24 (ucast (b ! 0))"

definition Uint64 :: "byte list \<Rightarrow> u64" where
  "Uint64 b = ucast (b ! 7) OR push_bit 8 (ucast (b ! 6)) OR push_bit 16 (ucast (b ! 5))
     OR push_bit 24 (ucast (b ! 4)) OR push_bit 32 (ucast (b ! 3)) OR push_bit 40 (ucast (b ! 2))
     OR push_bit 48 (ucast (b ! 1)) OR push_bit 56 (ucast (b ! 0))"

definition readVarNum :: "byte list \<Rightarrow> (err + u64) \<times> byte list" where
  "readVarNum buf =
     (case readFull 1 buf of
        (Inl e, buf1) \<Rightarrow> (Inl e, buf1)
      | (Inr b, buf1) \<Rightarrow>
          if b ! 0 = 0xFF then
            (case readFull 8 buf1 of
               (Inl e, buf2) \<Rightarrow> (Inl e, buf2)
             | (Inr b8, buf2) \<Rightarrow> (Inr (Uint64 b8), buf2))
          else if b ! 0 = 0xFE then
            (case readFull 4 buf1 of
               (Inl e, buf2) \<Rightarrow> (Inl e, buf2)
             | (Inr b4, buf2) \<Rightarrow> (Inr (ucast (Uint32 b4)), buf2))
          else if b ! 0 = 0xFD then
            (case readFull 2 buf1 of
               (Inl e, buf2) \<Rightarrow> (Inl e, buf2)
             | (Inr b2, buf2) \<Rightarrow> (Inr (ucast (Uint16 b2)), buf2))
          else (Inr (ucast (b ! 0)), buf1))"

definition readTLV :: "byte list \<Rightarrow> (err + u64 \<times> byte list) \<times> byte list" where
  "readTLV buf =
     (case readVarNum buf of
        (Inl e, buf1) \<Rightarrow> (Inl e, buf1)
      | (Inr t, buf1) \<Rightarrow>
          (case readVarNum buf1 of
             (Inl e, buf2) \<Rightarrow> (Inl e, buf2)
           | (Inr l, buf2) \<Rightarrow>
               if unat l > maxSize then (Inl ErrPacketTooLarge, buf2)
               else (case readFull (unat l) buf2 of
                       (Inl e, buf3) \<Rightarrow> (Inl e, buf3)
                     | (Inr v, buf3) \<Rightarrow> (Inr (t, v), buf3))))"

text \<open>
  Modelled from the spec: \<^verbatim>\<open>Reader.Peek\<close> is not in \<^verbatim>\<open>decode.go\<close>. The spec requires it to return
  the type number of the next record without consuming any byte, and a sentinel at the end of
  the stream. Here it returns the number \<^verbatim>\<open>readVarNum\<close> would read, and \<open>peekEOF\<close> when
  \<^verbatim>\<open>readVarNum\<close> would fail.
\<close>

definition Peek :: "env \<Rightarrow> byte list \<Rightarrow> u64" where
  "Peek E buf = (case readVarNum buf of (Inl _, _) \<Rightarrow> peekEOF E | (Inr t, _) \<Rightarrow> t)"

subsection \<open>Decoding one payload\<close>

definition decodeUint64 :: "byte list \<Rightarrow> u64" where
  "decodeUint64 b =
     (if length b = 8 then Uint64 b
      else if length b = 4 then ucast (Uint32 b)
      else if length b = 2 then ucast (Uint16 b)
      else if length b = 1 then ucast (b ! 0)
      else 0)"

text \<open>
  \<^verbatim>\<open>value.Interface().(encoding.BinaryUnmarshaler)\<close>: the type assertion succeeds when the method
  set of the value's own type has \<^verbatim>\<open>UnmarshalBinary\<close>. By Go's rules the method set of a defined
  type \<open>T\<close> holds the methods declared with receiver \<open>T\<close>, and the method set of \<open>*T\<close> holds
  those declared with receiver \<open>T\<close> or \<open>*T\<close>. \<^verbatim>\<open>Interface()\<close> copies the value: what a
  value-receiver method writes to its receiver is lost, and calling one through a nil pointer
  panics.
\<close>

fun keepReceiver :: "val \<Rightarrow> val outcome \<Rightarrow> val outcome" where
  "keepReceiver r Panicked = Panicked"
| "keepReceiver r (Returned e _) = Returned e r"

fun binaryUnmarshaler :: "env \<Rightarrow> val \<Rightarrow> (byte list \<Rightarrow> val outcome) option" where
  "binaryUnmarshaler E (VNamed n x) =
     (case UnmarshalBinary E n of
        Some (ByValue, f) \<Rightarrow> Some (\<lambda>b. keepReceiver (VNamed n x) (f b (VNamed n x)))
      | _ \<Rightarrow> None)"
| "binaryUnmarshaler E (VPtr (VNamed n z) r) =
     (case UnmarshalBinary E n of
        Some (ByPointer, f) \<Rightarrow> Some (\<lambda>b. f b (VPtr (VNamed n z) r))
      | Some (ByValue, f) \<Rightarrow>
          Some (\<lambda>b. case r of
                      None \<Rightarrow> Panicked
                    | Some x \<Rightarrow> keepReceiver (VPtr (VNamed n z) r) (f b x))
      | None \<Rightarrow> None)"
| "binaryUnmarshaler E _ = None"

fun consField :: "field \<Rightarrow> (byte list \<times> field list) outcome \<Rightarrow> (byte list \<times> field list) outcome" where
  "consField f Panicked = Panicked"
| "consField f (Returned e (buf, fs)) = Returned e (buf, f # fs)"

text \<open>
  The three mutually recursive functions of \<^verbatim>\<open>decode.go\<close>. \<open>decodeLoop\<close> is the \<^verbatim>\<open>for\<close> loop of
  \<^verbatim>\<open>decode\<close> with its variable \<^verbatim>\<open>once\<close>; \<^verbatim>\<open>decode\<close> enters it with \<^verbatim>\<open>once = false\<close>.

  In \<open>decodeValue\<close>, \<^verbatim>\<open>value.Interface()\<close> panics on a value obtained through an unexported field
  and on the zero \<^verbatim>\<open>reflect.Value\<close>; every \<^verbatim>\<open>Set...\<close> panics on a value that is not addressable.
  A fresh element (\<^verbatim>\<open>reflect.New(...).Elem()\<close>) and the referent of a pointer are addressable.
  A struct field is addressable when its struct is, and read-only when it is unexported.
\<close>

function decodeValue :: "env \<Rightarrow> byte list \<Rightarrow> bool \<Rightarrow> bool \<Rightarrow> val \<Rightarrow> val outcome"
  and decodeStruct ::
    "env \<Rightarrow> byte list \<Rightarrow> bool \<Rightarrow> bool \<Rightarrow> field list \<Rightarrow> (byte list \<times> field list) outcome"
  and decodeLoop ::
    "env \<Rightarrow> bool \<Rightarrow> byte list \<Rightarrow> bool \<Rightarrow> bool \<Rightarrow> val \<Rightarrow> u64 \<Rightarrow> (byte list \<times> val) outcome"
where
  "decodeValue E v addr ro x =
     (if ro \<or> Kind x = KInvalid then Panicked
      else case binaryUnmarshaler E x of
        Some r \<Rightarrow> r v
      | None \<Rightarrow>
         (case underlying x of
            VBool _ \<Rightarrow>
              if addr then Returned None (withUnderlying x (VBool True)) else Panicked
          | VUint64 _ \<Rightarrow>
              if addr then Returned None (withUnderlying x (VUint64 (decodeUint64 v)))
              else Panicked
          | VSlice z xs \<Rightarrow>
              if Kind z = KUint8 then
                (if addr then
                   Returned None
                     (withUnderlying x (VSlice z (map (\<lambda>b. withUnderlying z (VUint8 b)) v)))
                 else Panicked)
              else
                (case decodeValue E v True False z of
                   Panicked \<Rightarrow> Panicked
                 | Returned (Some e) _ \<Rightarrow> Returned (Some e) x
                 | Returned None elem \<Rightarrow>
                     if addr then Returned None (withUnderlying x (VSlice z (xs @ [elem])))
                     else Panicked)
          | VString _ \<Rightarrow>
              if addr then Returned None (withUnderlying x (VString v)) else Panicked
          | VPtr z r \<Rightarrow>
              if addr then
                (case decodeValue E v True False z of
                   Panicked \<Rightarrow> Panicked
                 | Returned (Some e) _ \<Rightarrow> Returned (Some e) x
                 | Returned None elem \<Rightarrow>
                     Returned None (withUnderlying x (VPtr z (Some elem))))
              else
                (case decodeValue E v True False (Elem r) of
                   Panicked \<Rightarrow> Panicked
                 | Returned e elem \<Rightarrow> Returned e (withUnderlying x (VPtr z (Some elem))))
          | VStruct fs \<Rightarrow>
              (case decodeStruct E v addr False fs of
                 Panicked \<Rightarrow> Panicked
               | Returned e (_, fs') \<Rightarrow> Returned e (withUnderlying x (VStruct fs')))
          | _ \<Rightarrow> Returned (Some ErrNotSupported) x))"
| "decodeStruct E buf addr ro [] = Returned None (buf, [])"
| "decodeStruct E buf addr ro (f # fs) =
     (case tag f of
        None \<Rightarrow> Returned (Some ErrParseTag) (buf, f # fs)
      | Some tg \<Rightarrow>
          if Implicit tg then consField f (decodeStruct E buf addr ro fs)
          else
            (case decodeLoop E False buf addr (ro \<or> \<not> exported f) (fval f) (Type tg) of
               Panicked \<Rightarrow> Panicked
             | Returned e (buf', y) \<Rightarrow>
                 if e \<noteq> None \<and> \<not> Optional tg
                 then Returned e (buf', Field (exported f) (tag f) y # fs)
                 else consField (Field (exported f) (tag f) y)
                        (decodeStruct E buf' addr ro fs)))"
| "decodeLoop E once buf addr ro x valType =
     (if Peek E buf \<noteq> valType then
        Returned (if once then None else Some ErrUnexpectedType) (buf, x)
      else
        (case readTLV buf of
           (Inl e, buf') \<Rightarrow> Returned (if once then None else Some e) (buf', x)
         | (Inr (_, v), buf') \<Rightarrow>
             (case decodeValue E v addr ro x of
                Panicked \<Rightarrow> Panicked
              | Returned (Some e) x' \<Rightarrow> Returned (if once then None else Some e) (buf', x')
              | Returned None x' \<Rightarrow>
                  if Kind x \<noteq> KSlice \<or> elemKind x = KUint8 then Returned None (buf', x')
                  else decodeLoop E True buf' addr ro x' valType)))"
  by pat_completeness auto

text \<open>
  Termination. Every record read is shorter than the stream it is read from, a payload is
  shorter than its record, and between two reads the value gets smaller. The stream a field
  leaves to the next field is a result of the decoder itself; that it is no longer than the
  stream the field started from is proved first, on the domain of the functions.
\<close>

lemma readVarNum_le: "length (snd (readVarNum buf)) \<le> length buf"
  by (auto simp: readVarNum_def readFull_def split: if_splits prod.splits sum.splits)

lemma readVarNum_lt: "readVarNum buf = (Inr t, r) \<Longrightarrow> length r < length buf"
  by (auto simp: readVarNum_def readFull_def split: if_splits prod.splits sum.splits)

lemma readTLV_le: "length (snd (readTLV buf)) \<le> length buf"
proof -
  have b: "\<And>y r bs. readVarNum bs = (y, r) \<Longrightarrow> length r \<le> length bs"
    subgoal for y r bs using readVarNum_le[of bs] by simp
    done
  show ?thesis
    by (auto simp: readTLV_def readFull_def split: if_splits prod.splits sum.splits dest!: b)
qed

lemma readTLV_lt:
  "readTLV buf = (Inr (t, v), r) \<Longrightarrow> length r < length buf \<and> length v < length buf"
  apply (auto simp: readTLV_def split: if_splits prod.splits sum.splits dest!: readVarNum_lt)
   apply (auto simp: readFull_def split: if_splits)
  done

lemma size_underlying: "size (underlying x) \<le> size x"
  by (induction x rule: underlying.induct) auto

lemma consField_Returned:
  "consField f r = Returned e (b, fs') \<Longrightarrow> \<exists>fs''. r = Returned e (b, fs'')"
  by (cases r) auto

lemma decode_dom_shrinks:
  "decodeValue_decodeStruct_decodeLoop_dom (Inl (E, v, addr, ro, x)) \<Longrightarrow> True"
  "decodeValue_decodeStruct_decodeLoop_dom (Inr (Inl (E, buf, addr, ro, fs))) \<Longrightarrow>
     (\<forall>e b fs'. decodeStruct E buf addr ro fs = Returned e (b, fs') \<longrightarrow> length b \<le> length buf)"
  "decodeValue_decodeStruct_decodeLoop_dom (Inr (Inr (E, once, buf, addr, ro, x, valType))) \<Longrightarrow>
     (\<forall>e b y. decodeLoop E once buf addr ro x valType = Returned e (b, y) \<longrightarrow>
        length b \<le> length buf)"
proof (induct rule: decodeValue_decodeStruct_decodeLoop.pinduct)
  case (1 E v addr ro x)
  then show ?case by simp
next
  case (2 E buf addr ro)
  then show ?case by (simp add: decodeStruct.psimps)
next
  case (3 E buf addr ro f fs)
  show ?case
    apply (subst decodeStruct.psimps(2)[OF 3(1)])
    using 3(2-)
    apply (auto split: option.splits outcome.splits if_splits dest!: consField_Returned)
     apply fastforce+
    done
next
  case (4 E once buf addr ro x valType)
  obtain r buf' where tlv: "readTLV buf = (r, buf')" by (cases "readTLV buf")
  have le: "length buf' \<le> length buf" using readTLV_le[of buf] tlv by simp
  show ?case
  proof (intro allI impI)
    fix e b y
    assume res: "decodeLoop E once buf addr ro x valType = Returned e (b, y)"
    show "length b \<le> length buf"
    proof (cases "Peek E buf \<noteq> valType")
      case True
      with res show ?thesis by (simp add: decodeLoop.psimps[OF 4(1)])
    next
      case False
      show ?thesis
      proof (cases r)
        case (Inl a)
        with res False tlv le show ?thesis by (simp add: decodeLoop.psimps[OF 4(1)])
      next
        case (Inr tv)
        obtain t v where tv: "tv = (t, v)" by (cases tv)
        show ?thesis
        proof (cases "decodeValue E v addr ro x")
          case Panicked
          with res False tlv Inr tv show ?thesis by (simp add: decodeLoop.psimps[OF 4(1)])
        next
          case (Returned e' x')
          show ?thesis
          proof (cases "e' = None \<and> \<not> (Kind x \<noteq> KSlice \<or> elemKind x = KUint8)")
            case True
            then have "decodeLoop E True buf' addr ro x' valType = Returned e (b, y)"
              using res False tlv Inr tv Returned by (simp add: decodeLoop.psimps[OF 4(1)])
            moreover have "\<forall>e b y. decodeLoop E True buf' addr ro x' valType = Returned e (b, y)
                \<longrightarrow> length b \<le> length buf'"
            proof (rule 4(3)[of r buf' tv t v e' x'])
              show "\<not> Peek E buf \<noteq> valType" using False by simp
              show "(r, buf') = readTLV buf" using tlv by simp
              show "r = Inr tv" by (rule Inr)
              show "(t, v) = tv" using tv by simp
              show "decodeValue E v addr ro x = Returned e' x'" by (rule Returned)
              show "e' = None" using True by simp
              show "\<not> (Kind x \<noteq> KSlice \<or> elemKind x = KUint8)" using True by simp
            qed
            ultimately show ?thesis using le by fastforce
          next
            case False2: False
            then show ?thesis
              using res False tlv Inr tv Returned le
              by (auto simp: decodeLoop.psimps[OF 4(1)] split: option.splits if_splits)
          qed
        qed
      qed
    qed
  qed
qed

termination decodeValue
proof (relation "measures
    [\<lambda>a. case a of
        Inl (E, v, addr, ro, x) \<Rightarrow> length v
      | Inr (Inl (E, buf, addr, ro, fs)) \<Rightarrow> length buf
      | Inr (Inr (E, once, buf, addr, ro, x, t)) \<Rightarrow> length buf,
     \<lambda>a. case a of
        Inl (E, v, addr, ro, x) \<Rightarrow> size x
      | Inr (Inl (E, buf, addr, ro, fs)) \<Rightarrow> size_list size fs
      | Inr (Inr (E, once, buf, addr, ro, x, t)) \<Rightarrow> size x]", goal_cases)
  case 1
  show ?case by simp
next
  case (2 E v addr ro x z xs)
  then show ?case using size_underlying[of x] by simp
next
  case (3 E v addr ro x z r)
  then show ?case using size_underlying[of x] by simp
next
  case (4 E v addr ro x z r)
  then show ?case using size_underlying[of x] by (cases r) simp_all
next
  case (5 E v addr ro x fs)
  then show ?case using size_underlying[of x] by simp
next
  case (6 E buf addr ro f fs tg)
  then show ?case by simp
next
  case (7 E buf addr ro f fs tg)
  then show ?case by (cases f) simp
next
  case (8 E buf addr ro f fs tg e p buf' y)
  then show ?case using decode_dom_shrinks(3)[OF 8(6)] by (cases f) auto
next
  case (9 E once buf addr ro x valType r buf' tv t v)
  then show ?case using readTLV_lt[of buf t v buf'] by simp
next
  case (10 E once buf addr ro x valType r buf' tv t v e x')
  then show ?case using readTLV_lt[of buf t v buf'] by simp
qed

declare decodeValue.simps [simp del] decodeStruct.simps(2) [simp del] decodeLoop.simps [simp del]

definition decode :: "env \<Rightarrow> byte list \<Rightarrow> bool \<Rightarrow> bool \<Rightarrow> val \<Rightarrow> u64 \<Rightarrow> (byte list \<times> val) outcome" where
  "decode E buf addr ro x valType = decodeLoop E False buf addr ro x valType"


subsection \<open>The specification's vocabulary\<close>

text \<open>
  The number a byte sequence denotes when read big-endian, and the wire format's marker
  table: how many bytes follow the first byte of a VarNum.
\<close>

definition bigEndian :: "byte list \<Rightarrow> nat" where
  "bigEndian bs = foldl (\<lambda>a b. a * 256 + unat b) 0 bs"

definition extraBytes :: "byte \<Rightarrow> nat" where
  "extraBytes m = (if m = 0xFF then 8 else if m = 0xFE then 4 else if m = 0xFD then 2 else 0)"

text \<open>The count of additional bytes as the sentence of the specification has it: 0/1/3/7.\<close>

definition claimedExtraBytes :: "byte \<Rightarrow> nat" where
  "claimedExtraBytes m =
     (if m = 0xFF then 7 else if m = 0xFE then 3 else if m = 0xFD then 1 else 0)"

text \<open>An environment with no \<^verbatim>\<open>UnmarshalBinary\<close> method at all, for concrete runs.\<close>

definition env0 :: env where
  "env0 = \<lparr>peekEOF = 0, UnmarshalBinary = (\<lambda>_. None)\<rparr>"

subsection \<open>Results of the composite decoder, field by field\<close>

text \<open>
  \<open>prependFields\<close> puts fields already dealt with in front of the fields of a result;
  \<open>onFields\<close> applies a function to the fields of a result. A field is implicit when its tag
  parses and is marked implicit.
\<close>

fun prependFields ::
  "field list \<Rightarrow> (byte list \<times> field list) outcome \<Rightarrow> (byte list \<times> field list) outcome" where
  "prependFields pre Panicked = Panicked"
| "prependFields pre (Returned e (buf, fs)) = Returned e (buf, pre @ fs)"

fun onFields ::
  "(field list \<Rightarrow> field list) \<Rightarrow> (byte list \<times> field list) outcome
     \<Rightarrow> (byte list \<times> field list) outcome" where
  "onFields g Panicked = Panicked"
| "onFields g (Returned e (buf, fs)) = Returned e (buf, g fs)"

definition isImplicit :: "field \<Rightarrow> bool" where
  "isImplicit f = (case tag f of None \<Rightarrow> False | Some tg \<Rightarrow> Implicit tg)"

subsection \<open>Tags and types of the package's test\<close>

text \<open>
  The tags \<^verbatim>\<open>tlv:"t"\<close>, \<^verbatim>\<open>tlv:"t,optional"\<close> and an implicit field, as parsed.
\<close>

definition required :: "u64 \<Rightarrow> structTag option" where
  "required t = Some \<lparr>Type = t, Optional = False, Implicit = False\<rparr>"

definition optional :: "u64 \<Rightarrow> structTag option" where
  "optional t = Some \<lparr>Type = t, Optional = True, Implicit = False\<rparr>"

definition implicit :: "structTag option" where
  "implicit = Some \<lparr>Type = 0, Optional = False, Implicit = True\<rparr>"

text \<open>
  The type \<^verbatim>\<open>special\<close> of \<^verbatim>\<open>encode_test.go\<close>: a struct with the single field \<^verbatim>\<open>F uint8\<close>, which has
  no tag (\<open>untagged\<close> is what \<^verbatim>\<open>parseTag\<close> makes of the empty tag), and the method
  \<^verbatim>\<open>func (s *special) UnmarshalBinary(b []byte) error\<close>, which stores \<^verbatim>\<open>b[0]\<close> in \<^verbatim>\<open>s.F\<close> when
  \<^verbatim>\<open>len(b) == 1\<close> and returns nil. Through a nil pointer the store panics.
\<close>

fun specialUnmarshalBinary :: "byte list \<Rightarrow> val \<Rightarrow> val outcome" where
  "specialUnmarshalBinary b (VPtr z (Some (VNamed n (VStruct [Field e tg (VUint8 F)])))) =
     Returned None
       (VPtr z (Some (VNamed n (VStruct [Field e tg (VUint8 (if length b = 1 then b ! 0 else F))]))))"
| "specialUnmarshalBinary b (VPtr z None) =
     (if length b = 1 then Panicked else Returned None (VPtr z None))"
| "specialUnmarshalBinary b s = Returned None s"

definition testEnv :: "u64 \<Rightarrow> env" where
  "testEnv eof = \<lparr>peekEOF = eof,
     UnmarshalBinary =
       (\<lambda>n. if n = ''special'' then Some (ByPointer, specialUnmarshalBinary) else None)\<rparr>"

definition special :: "structTag option \<Rightarrow> byte \<Rightarrow> val" where
  "special untagged F = VNamed ''special'' (VStruct [Field True untagged (VUint8 F)])"

subsection \<open>The encoder, from the specification\<close>

text \<open>
  Modelled from the spec: the big-endian bytes \<^verbatim>\<open>BE16(v)\<close>, \<^verbatim>\<open>BE32(v)\<close>, \<^verbatim>\<open>BE64(v)\<close> of the wire
  format, as the \<open>k\<close> low-order base-256 digits of \<open>n\<close>, most significant first. The
  encoder (\<^verbatim>\<open>Marshal\<close>, \<^verbatim>\<open>encode\<close>) is not in \<^verbatim>\<open>decode.go\<close>.
\<close>

fun beBytes :: "nat \<Rightarrow> nat \<Rightarrow> byte list" where
  "beBytes 0 n = []"
| "beBytes (Suc k) n = beBytes k (n div 256) @ [of_nat (n mod 256)]"

text \<open>
  Modelled from the spec: \<^verbatim>\<open>encodeVarNum\<close>, the canonical, narrowest form of the wire format:
  the value itself up to 252, else \<^verbatim>\<open>0xFD\<close> and 2 bytes up to 65535, else \<^verbatim>\<open>0xFE\<close> and 4 bytes
  up to \<open>2^32 - 1\<close>, else \<^verbatim>\<open>0xFF\<close> and 8 bytes.
\<close>

definition encodeVarNum :: "u64 \<Rightarrow> byte list" where
  "encodeVarNum v =
     (if unat v \<le> 252 then [ucast v]
      else if unat v \<le> 65535 then 0xFD # beBytes 2 (unat v)
      else if unat v \<le> 4294967295 then 0xFE # beBytes 4 (unat v)
      else 0xFF # beBytes 8 (unat v))"

text \<open>
  Modelled from the spec: the payload of an unsigned 64-bit integer, "the narrowest width
  (1/2/4/8 bytes)" that holds the value.
\<close>

definition encodeUint64 :: "u64 \<Rightarrow> byte list" where
  "encodeUint64 v =
     (if unat v < 2 ^ 8 then beBytes 1 (unat v)
      else if unat v < 2 ^ 16 then beBytes 2 (unat v)
      else if unat v < 2 ^ 32 then beBytes 4 (unat v)
      else beBytes 8 (unat v))"

text \<open>
  Modelled from the spec: one record, \<^verbatim>\<open>VarNum(type) VarNum(length) Payload\<close>.
\<close>

definition writeTLV :: "u64 \<Rightarrow> byte list \<Rightarrow> byte list" where
  "writeTLV t payload = encodeVarNum t @ encodeVarNum (of_nat (length payload)) @ payload"

text \<open>The byte a value of kind uint8 holds; the payload of a byte slice is made of them.\<close>

fun byteOf :: "val \<Rightarrow> byte" where
  "byteOf (VNamed _ x) = byteOf x"
| "byteOf (VUint8 b) = b"
| "byteOf _ = 0"

text \<open>Errors of the encoder end the encoding: the first error wins.\<close>

fun appendE :: "err + byte list \<Rightarrow> err + byte list \<Rightarrow> err + byte list" where
  "appendE (Inl e) _ = Inl e"
| "appendE (Inr a) (Inl e) = Inl e"
| "appendE (Inr a) (Inr b) = Inr (a @ b)"

fun wrapTLV :: "u64 \<Rightarrow> err + byte list \<Rightarrow> err + byte list" where
  "wrapTLV t (Inl e) = Inl e"
| "wrapTLV t (Inr p) = Inr (writeTLV t p)"

text \<open>
  Modelled from the spec: the encoder's side of the leaf override hook, the
  \<^verbatim>\<open>MarshalBinary\<close> operations the program's types supply, by type name.
\<close>

type_synonym marshalers = "string \<Rightarrow> (val \<Rightarrow> err + byte list) option"

text \<open>
  Modelled from the spec: the shape table of the value codec, encode column. \<open>encodeValue\<close>
  gives the records a value emits under the type number \<open>t\<close>: a type's own binary-encode
  operation takes precedence and its bytes are the payload of one record; a boolean emits a
  zero-length record if true and nothing if false; an unsigned integer, a text and a byte
  sequence emit one record; a repeated field emits one record per element, all with the
  field's type number, in order; a reference emits what its referent emits; a composite emits
  one record whose payload is the concatenation of what its non-implicit fields emit, in
  declaration order, each encoded whatever its value; every other shape is not supported.
  The specification gives no encoding of a reference without referent: it is taken as not
  supported.
\<close>

fun encodeValue :: "marshalers \<Rightarrow> val \<Rightarrow> u64 \<Rightarrow> err + byte list"
  and encodeFields :: "marshalers \<Rightarrow> field list \<Rightarrow> err + byte list"
where
  "encodeValue M (VNamed n x) t =
     (case M n of Some m \<Rightarrow> wrapTLV t (m (VNamed n x)) | None \<Rightarrow> encodeValue M x t)"
| "encodeValue M (VBool b) t = Inr (if b then writeTLV t [] else [])"
| "encodeValue M (VUint64 v) t = Inr (writeTLV t (encodeUint64 v))"
| "encodeValue M (VString s) t = Inr (writeTLV t s)"
| "encodeValue M (VSlice z xs) t =
     (if Kind z = KUint8 then Inr (writeTLV t (map byteOf xs))
      else foldr (\<lambda>e r. appendE (encodeValue M e t) r) xs (Inr []))"
| "encodeValue M (VPtr z r) t =
     (case r of None \<Rightarrow> Inl ErrNotSupported | Some x \<Rightarrow> encodeValue M x t)"
| "encodeValue M (VStruct fs) t = wrapTLV t (encodeFields M fs)"
| "encodeValue M (VUint8 _) t = Inl ErrNotSupported"
| "encodeValue M VOther t = Inl ErrNotSupported"
| "encodeValue M VInvalid t = Inl ErrNotSupported"
| "encodeFields M [] = Inr []"
| "encodeFields M (Field ex None x # fs) = Inl ErrParseTag"
| "encodeFields M (Field ex (Some tg) x # fs) =
     (if Implicit tg then encodeFields M fs
      else appendE (encodeValue M x (Type tg)) (encodeFields M fs))"

subsection \<open>Fresh values and the values that survive a round trip\<close>

text \<open>
  \<open>zeroOf x\<close> is the zero value of the type of \<open>x\<close>: the fresh destination a decode starts
  from.
\<close>

fun zeroOf :: "val \<Rightarrow> val" and zeroField :: "field \<Rightarrow> field" where
  "zeroOf (VBool _) = VBool False"
| "zeroOf (VUint64 _) = VUint64 0"
| "zeroOf (VUint8 _) = VUint8 0"
| "zeroOf (VString _) = VString []"
| "zeroOf (VSlice z _) = VSlice z []"
| "zeroOf (VPtr z _) = VPtr z None"
| "zeroOf (VStruct fs) = VStruct (map zeroField fs)"
| "zeroOf (VNamed n x) = VNamed n (zeroOf x)"
| "zeroOf VOther = VOther"
| "zeroOf VInvalid = VInvalid"
| "zeroField (Field e tg x) = Field e tg (zeroOf x)"

text \<open>
  \<open>emits\<close>: the value puts at least one record on the wire (a false boolean and an empty
  repeated field put none). \<open>repeated\<close>: the value is a slice whose elements are not bytes.
  \<open>firstType\<close>: the type number of the first record a list of fields puts on the wire.
  \<open>payloadSize\<close>: the length of the payload a composite with these fields has.
\<close>

fun emits :: "val \<Rightarrow> bool" where
  "emits (VNamed _ x) = emits x"
| "emits (VBool b) = b"
| "emits (VSlice z xs) = (Kind z = KUint8 \<or> xs \<noteq> [])"
| "emits _ = True"

fun repeated :: "val \<Rightarrow> bool" where
  "repeated (VNamed _ x) = repeated x"
| "repeated (VSlice z xs) = (Kind z \<noteq> KUint8)"
| "repeated _ = False"

fun firstType :: "field list \<Rightarrow> u64 option" where
  "firstType [] = None"
| "firstType (Field ex None x # fs) = None"
| "firstType (Field ex (Some tg) x # fs) =
     (if \<not> Implicit tg \<and> emits x then Some (Type tg) else firstType fs)"

definition payloadSize :: "field list \<Rightarrow> nat" where
  "payloadSize fs = (case encodeFields (\<lambda>_. None) fs of Inl _ \<Rightarrow> 0 | Inr p \<Rightarrow> length p)"

text \<open>
  The values for which encoding and decoding are inverse. \<open>rtOne x\<close>: \<open>x\<close> is carried by
  exactly one record and read back from it. A boolean must be true; a text, a byte sequence
  and the payload of a composite must not exceed 8800 bytes; a pointer must have a referent,
  itself carried by one record; the elements of a byte sequence and the referent of a
  pointer must have the element type of their container. \<open>rtValue x opt\<close>: \<open>x\<close> is the value
  of a field that is optional or not: besides the values of \<open>rtOne\<close>, a repeated field whose
  elements are each carried by one record and have the slice's element type, and, in an
  optional field only, a false boolean and an empty repeated field. \<open>rtFields\<close>: every tag
  parses; an implicit field holds its zero value; every other field is exported and holds
  such a value; and a field that is repeated or puts nothing on the wire is not followed on
  the wire by a record of its own type number.
\<close>

fun rtOne :: "val \<Rightarrow> bool"
  and rtValue :: "val \<Rightarrow> bool \<Rightarrow> bool"
  and rtFields :: "field list \<Rightarrow> bool"
where
  "rtOne (VNamed n x) = rtOne x"
| "rtOne (VBool b) = b"
| "rtOne (VUint64 _) = True"
| "rtOne (VString s) = (length s \<le> 8800)"
| "rtOne (VSlice z xs) =
     (Kind z = KUint8 \<and> length xs \<le> 8800
      \<and> list_all (\<lambda>e. e = withUnderlying z (VUint8 (byteOf e))) xs)"
| "rtOne (VPtr z r) = (case r of None \<Rightarrow> False | Some x \<Rightarrow> rtOne x \<and> zeroOf x = z)"
| "rtOne (VStruct fs) = (rtFields fs \<and> payloadSize fs \<le> 8800)"
| "rtOne (VUint8 _) = False"
| "rtOne VOther = False"
| "rtOne VInvalid = False"
| "rtValue (VNamed n x) opt = rtValue x opt"
| "rtValue (VBool b) opt = (b \<or> opt)"
| "rtValue (VSlice z xs) opt =
     (if Kind z = KUint8 then rtOne (VSlice z xs)
      else list_all (\<lambda>e. rtOne e \<and> zeroOf e = z) xs \<and> (xs \<noteq> [] \<or> opt))"
| "rtValue (VUint64 v) opt = rtOne (VUint64 v)"
| "rtValue (VString s) opt = rtOne (VString s)"
| "rtValue (VPtr z r) opt = rtOne (VPtr z r)"
| "rtValue (VStruct fs) opt = rtOne (VStruct fs)"
| "rtValue (VUint8 _) opt = False"
| "rtValue VOther opt = False"
| "rtValue VInvalid opt = False"
| "rtFields [] = True"
| "rtFields (Field ex None x # fs) = False"
| "rtFields (Field ex (Some tg) x # fs) =
     (if Implicit tg then zeroOf x = x \<and> rtFields fs
      else ex \<and> rtValue x (Optional tg)
        \<and> (repeated x \<or> \<not> emits x \<longrightarrow> firstType fs \<noteq> Some (Type tg))
        \<and> rtFields fs)"





section \<open>Big-endian reassembly\<close>

lemma or_push8:
  fixes a m :: nat
  assumes "a < 256"
  shows "a OR push_bit 8 m = a + 256 * m"
proof -
  have "int a OR push_bit 8 (int m) = concat_bit 8 (int a) (int m)"
    using assms by (simp add: concat_bit_def take_bit_int_eq_self)
  also have "\<dots> = int a + 256 * int m"
    using assms by (simp add: concat_bit_eq take_bit_int_eq_self push_bit_eq_mult)
  finally have "int (a OR push_bit 8 m) = int (a + 256 * m)"
    by (simp add: of_nat_or_eq of_nat_push_bit)
  then show ?thesis by (simp only: of_nat_eq_iff)
qed

lemma unat_byte_lt: "unat (b :: byte) < 256"
  using unsigned_less[of b, where 'a=nat] by simp

lemma take_bit_byte: "8 \<le> n \<Longrightarrow> take_bit n (unat (b :: byte)) = unat b"
proof -
  assume "8 \<le> n"
  then have "(2::nat) ^ 8 \<le> 2 ^ n" by (rule power_increasing) simp
  then have "unat b < 2 ^ n" using unat_byte_lt[of b] by simp
  then show ?thesis by (rule take_bit_nat_eq_self)
qed

lemma take_bit_push_byte:
  "k + 8 \<le> n \<Longrightarrow> take_bit n (push_bit k (unat (b :: byte))) = push_bit k (unat b)"
proof -
  assume a: "k + 8 \<le> n"
  have "push_bit k (unat b) < 2 ^ k * 2 ^ 8"
    using unat_byte_lt[of b] by (simp add: push_bit_eq_mult)
  also have "\<dots> = 2 ^ (k + 8)" by (simp add: power_add)
  also have "\<dots> \<le> 2 ^ n" using a by (intro power_increasing) simp_all
  finally show ?thesis by (rule take_bit_nat_eq_self)
qed

lemma be_nat4:
  fixes a0 a1 a2 a3 :: nat
  assumes "a0 < 256" "a1 < 256" "a2 < 256"
  shows "a0 OR push_bit 8 a1 OR push_bit 16 a2 OR push_bit 24 a3
       = a0 + 256 * (a1 + 256 * (a2 + 256 * a3))"
proof -
  have "a0 OR push_bit 8 a1 OR push_bit 16 a2 OR push_bit 24 a3
      = a0 OR push_bit 8 (a1 OR push_bit 8 (a2 OR push_bit 8 a3))"
    by simp
  then show ?thesis using assms by (simp add: or_push8)
qed

lemma be_nat8:
  fixes a0 a1 a2 a3 a4 a5 a6 a7 :: nat
  assumes "a0 < 256" "a1 < 256" "a2 < 256" "a3 < 256" "a4 < 256" "a5 < 256" "a6 < 256"
  shows "a0 OR push_bit 8 a1 OR push_bit 16 a2 OR push_bit 24 a3 OR push_bit 32 a4
          OR push_bit 40 a5 OR push_bit 48 a6 OR push_bit 56 a7
       = a0 + 256 * (a1 + 256 * (a2 + 256 * (a3 + 256 * (a4 + 256 * (a5 + 256 * (a6 + 256 * a7))))))"
proof -
  have "a0 OR push_bit 8 a1 OR push_bit 16 a2 OR push_bit 24 a3 OR push_bit 32 a4
          OR push_bit 40 a5 OR push_bit 48 a6 OR push_bit 56 a7
      = a0 OR push_bit 8 (a1 OR push_bit 8 (a2 OR push_bit 8 (a3 OR push_bit 8
          (a4 OR push_bit 8 (a5 OR push_bit 8 (a6 OR push_bit 8 a7))))))"
    by simp
  then show ?thesis using assms by (simp add: or_push8)
qed

lemma Uint16_bytes: "unat (Uint16 [x, y]) = bigEndian [x, y]"
  by (simp add: Uint16_def bigEndian_def unsigned_or_eq unsigned_push_bit_eq unsigned_ucast_eq
      take_bit_byte take_bit_push_byte or_push8 unat_byte_lt)

lemma Uint32_bytes: "unat (Uint32 [x, y, z, w]) = bigEndian [x, y, z, w]"
  by (simp add: Uint32_def bigEndian_def unsigned_or_eq unsigned_push_bit_eq unsigned_ucast_eq
      take_bit_byte take_bit_push_byte be_nat4 unat_byte_lt)

lemma Uint64_bytes:
  "unat (Uint64 [a, b, c, d, e, f, g, h]) = bigEndian [a, b, c, d, e, f, g, h]"
  by (simp add: Uint64_def bigEndian_def unsigned_or_eq unsigned_push_bit_eq unsigned_ucast_eq
      take_bit_byte take_bit_push_byte be_nat8 unat_byte_lt)

lemma list2: "length b = 2 \<Longrightarrow> \<exists>x y. b = [x, y]"
  by (auto simp: numeral_eq_Suc length_Suc_conv)

lemma list4: "length b = 4 \<Longrightarrow> \<exists>x y z w. b = [x, y, z, w]"
  by (auto simp: numeral_eq_Suc length_Suc_conv)

lemma list8:
  "length b = 8 \<Longrightarrow> \<exists>a0 a1 a2 a3 a4 a5 a6 a7. b = [a0, a1, a2, a3, a4, a5, a6, a7]"
  by (auto simp: numeral_eq_Suc length_Suc_conv)

lemma unat_Uint16: "length b = 2 \<Longrightarrow> unat (Uint16 b) = bigEndian b"
  using list2[of b] Uint16_bytes by auto

lemma unat_Uint32: "length b = 4 \<Longrightarrow> unat (Uint32 b) = bigEndian b"
  using list4[of b] Uint32_bytes by auto

lemma unat_Uint64: "length b = 8 \<Longrightarrow> unat (Uint64 b) = bigEndian b"
  using list8[of b] Uint64_bytes by auto

lemma unat_ucast_up:
  fixes w :: "'a::len word"
  assumes "LENGTH('a) \<le> LENGTH('b::len)"
  shows "unat (ucast w :: 'b word) = unat w"
proof -
  have "unat w < 2 ^ LENGTH('a)" by (rule unsigned_less)
  also have "(2::nat) ^ LENGTH('a) \<le> 2 ^ LENGTH('b)"
    using assms by (intro power_increasing) simp_all
  finally have "take_bit LENGTH('b) (unat w) = unat w" by (rule take_bit_nat_eq_self)
  then show ?thesis by (simp add: unsigned_ucast_eq)
qed

lemma unat_ucast_16_64: "unat (ucast (w :: 16 word) :: u64) = unat w"
  by (rule unat_ucast_up) simp

lemma unat_ucast_32_64: "unat (ucast (w :: 32 word) :: u64) = unat w"
  by (rule unat_ucast_up) simp

lemma unat_ucast_8_64: "unat (ucast (w :: byte) :: u64) = unat w"
  by (rule unat_ucast_up) simp

lemma decodeUint64_bigEndian:
  "unat (decodeUint64 v) = (if length v \<in> {1, 2, 4, 8} then bigEndian v else 0)"
  apply (auto simp: decodeUint64_def unat_Uint64 unat_Uint32 unat_Uint16 unat_ucast_16_64
      unat_ucast_32_64 unat_ucast_8_64)
  apply (cases v; simp add: bigEndian_def)
  done

section \<open>VarNum decoding (C5)\<close>

lemma Uint64_of_bigEndian: "length b = 8 \<Longrightarrow> Uint64 b = of_nat (bigEndian b)"
  using unat_Uint64[of b] by (metis of_nat_unat ucast_id)

lemma Uint32_of_bigEndian:
  "length b = 4 \<Longrightarrow> (ucast (Uint32 b) :: u64) = of_nat (bigEndian b)"
  using unat_Uint32[of b] unat_ucast_32_64[of "Uint32 b"] by (metis of_nat_unat ucast_id)

lemma Uint16_of_bigEndian:
  "length b = 2 \<Longrightarrow> (ucast (Uint16 b) :: u64) = of_nat (bigEndian b)"
  using unat_Uint16[of b] unat_ucast_16_64[of "Uint16 b"] by (metis of_nat_unat ucast_id)

text \<open>
  C5, as amended. \<^verbatim>\<open>readVarNum\<close> reads the first byte; it fails with \<^verbatim>\<open>io.EOF\<close> on an empty
  stream. A first byte of 0 to 252 is the value. After 253, 254 and 255 it reads 2, 4 and 8
  further bytes (not 1, 3 and 7) and returns the number they denote big-endian; when fewer
  bytes are left it consumes them and returns the error of the short read, \<^verbatim>\<open>io.EOF\<close> when
  nothing followed the marker and \<^verbatim>\<open>io.ErrUnexpectedEOF\<close> otherwise.
\<close>

theorem readVarNum_wire:
  "readVarNum buf =
     (case buf of
        [] \<Rightarrow> (Inl EOF, [])
      | m # rest \<Rightarrow>
          if extraBytes m = 0 then (Inr (ucast m), rest)
          else if extraBytes m \<le> length rest
            then (Inr (of_nat (bigEndian (take (extraBytes m) rest))), drop (extraBytes m) rest)
            else (Inl (if rest = [] then EOF else ErrUnexpectedEOF), []))"
proof (cases buf)
  case Nil
  then show ?thesis by (simp add: readVarNum_def readFull_def)
next
  case (Cons m rest)
  then show ?thesis
    by (auto simp: readVarNum_def readFull_def extraBytes_def Uint64_of_bigEndian
        Uint32_of_bigEndian Uint16_of_bigEndian)
qed

text \<open>
  C5 as the specification states it fails: after the marker 253 the decoder consumes two
  further bytes, and the value is made of both; the sentence counts one.
\<close>

theorem readVarNum_marker_253_counterexample:
  "readVarNum [0xFD, 0x01, 0x02, 0x03] = (Inr 0x0102, [0x03]) \<and>
   length [0xFD, 0x01, 0x02, 0x03 :: byte] - length (snd (readVarNum [0xFD, 0x01, 0x02, 0x03]))
     \<noteq> 1 + claimedExtraBytes 0xFD"
  by (simp add: readVarNum_def readFull_def Uint16_def claimedExtraBytes_def)

section \<open>Unsigned 64-bit payloads (C4)\<close>

text \<open>
  C4, as amended. Decoding a payload into an addressable unsigned 64-bit value whose type has
  no \<^verbatim>\<open>UnmarshalBinary\<close> always succeeds and stores \<open>decodeUint64\<close> of the payload: the
  number the payload denotes big-endian when it is 1, 2, 4 or 8 bytes long, and 0 for every
  other length. No payload length is an error.
\<close>

theorem decodeValue_uint64:
  assumes "binaryUnmarshaler E x = None" and "underlying x = VUint64 u"
  shows "decodeValue E v True False x = Returned None (withUnderlying x (VUint64 (decodeUint64 v)))
       \<and> unat (decodeUint64 v) = (if length v \<in> {1, 2, 4, 8} then bigEndian v else 0)"
proof -
  have "Kind x = KUint64" using assms(2) by (induction x rule: underlying.induct) simp_all
  then show ?thesis
    using assms by (simp add: decodeValue.simps decodeUint64_bigEndian)
qed

theorem decodeValue_uint64_witness:
  "decodeValue env0 [0x01, 0x02] True False (VUint64 7) = Returned None (VUint64 0x0102)
   \<and> unat (decodeUint64 [0x01, 0x02]) = bigEndian [0x01, 0x02]"
  using decodeValue_uint64[of env0 "VUint64 7" 7 "[0x01, 0x02]"]
  by (simp add: decodeUint64_def Uint16_def)

text \<open>
  C4 as the specification states it fails: a three-byte payload is no decode error, the
  value becomes 0.
\<close>

theorem decodeValue_uint64_length3_counterexample:
  "decodeValue env0 [0x01, 0x02, 0x03] True False (VUint64 7) = Returned None (VUint64 0)"
  by (simp add: decodeValue.simps decodeUint64_def env0_def)

section \<open>Facts about the decoder shared by the claims\<close>

lemmas run_simps = decode_def decodeLoop.simps decodeValue.simps decodeStruct.simps(2) Peek_def
  readTLV_def readVarNum_def readFull_def Uint16_def maxSize_def decodeUint64_def env0_def
  required_def optional_def implicit_def

lemma Kind_underlying: "Kind (underlying x) = Kind x"
  by (induction x rule: underlying.induct) simp_all

lemma elemKind_underlying: "elemKind (underlying x) = elemKind x"
  by (induction x rule: underlying.induct) simp_all

lemma Peek_readVarNum: "readVarNum buf = (Inr t, b1) \<Longrightarrow> Peek E buf = t"
  by (simp add: Peek_def)

lemma decodeLoop_mismatch:
  "Peek E buf \<noteq> t \<Longrightarrow>
   decodeLoop E once buf addr ro x t =
     Returned (if once then None else Some ErrUnexpectedType) (buf, x)"
  by (simp add: decodeLoop.simps)

lemma decodeLoop_read_error:
  "Peek E buf = t \<Longrightarrow> readTLV buf = (Inl e, buf') \<Longrightarrow>
   decodeLoop E once buf addr ro x t = Returned (if once then None else Some e) (buf', x)"
  by (simp add: decodeLoop.simps)

lemma readTLV_Nil: "readTLV [] = (Inl EOF, [])"
  by (simp add: readTLV_def readVarNum_def readFull_def)

lemma decodeLoop_once_Nil: "decodeLoop E True [] addr ro x t = Returned None ([], x)"
  by (cases "Peek E [] = t")
    (simp_all add: decodeLoop_mismatch decodeLoop_read_error[OF _ readTLV_Nil])

lemma consField_prepend: "consField f r = prependFields [f] r"
  by (cases r) auto

lemma prependFields_prependFields:
  "prependFields a (prependFields b r) = prependFields (a @ b) r"
  by (cases r) auto

lemma decodeStruct_append:
  "decodeStruct E buf addr ro (xs @ ys) =
     (case decodeStruct E buf addr ro xs of
        Panicked \<Rightarrow> Panicked
      | Returned (Some e) (b, xs') \<Rightarrow> Returned (Some e) (b, xs' @ ys)
      | Returned None (b, xs') \<Rightarrow> prependFields xs' (decodeStruct E b addr ro ys))"
proof (induction xs arbitrary: buf)
  case Nil
  show ?case by (cases "decodeStruct E buf addr ro ys") auto
next
  case (Cons f fs)
  show ?case
  proof (cases "tag f")
    case None
    then show ?thesis by (simp add: decodeStruct.simps(2))
  next
    case (Some tg)
    show ?thesis
    proof (cases "Implicit tg")
      case True
      then show ?thesis
        using Some Cons.IH[of buf]
        by (auto simp: decodeStruct.simps(2) consField_prepend prependFields_prependFields
            split: outcome.splits option.splits)
    next
      case False
      show ?thesis
      proof (cases "decodeLoop E False buf addr (ro \<or> \<not> exported f) (fval f) (Type tg)")
        case Panicked
        then show ?thesis using Some False by (simp add: decodeStruct.simps(2))
      next
        case (Returned e p)
        obtain b y where p: "p = (b, y)" by (cases p)
        show ?thesis
          using Some False Returned p Cons.IH[of b]
          by (auto simp: decodeStruct.simps(2) consField_prepend prependFields_prependFields
              split: outcome.splits option.splits)
      qed
    qed
  qed
qed

lemma onFields_consField_drop:
  "isImplicit f \<Longrightarrow>
   onFields (filter (\<lambda>f. \<not> isImplicit f)) (consField f r)
     = onFields (filter (\<lambda>f. \<not> isImplicit f)) r"
  by (cases r) auto

lemma onFields_consField_keep:
  "\<not> isImplicit f \<Longrightarrow>
   onFields (filter (\<lambda>f. \<not> isImplicit f)) (consField f r)
     = consField f (onFields (filter (\<lambda>f. \<not> isImplicit f)) r)"
  by (cases r) auto

lemma decodeStruct_filter:
  "onFields (filter (\<lambda>f. \<not> isImplicit f)) (decodeStruct E buf addr ro fs) =
   decodeStruct E buf addr ro (filter (\<lambda>f. \<not> isImplicit f) fs)"
proof (induction fs arbitrary: buf)
  case Nil
  show ?case by simp
next
  case (Cons f fs)
  show ?case
  proof (cases "tag f")
    case None
    then show ?thesis by (simp add: decodeStruct.simps(2) isImplicit_def)
  next
    case (Some tg)
    show ?thesis
    proof (cases "Implicit tg")
      case True
      then have "isImplicit f" using Some by (simp add: isImplicit_def)
      then show ?thesis
        using Some True Cons.IH[of buf]
        by (simp add: decodeStruct.simps(2) onFields_consField_drop)
    next
      case False
      then have ni: "\<not> isImplicit f" using Some by (simp add: isImplicit_def)
      show ?thesis
      proof (cases "decodeLoop E False buf addr (ro \<or> \<not> exported f) (fval f) (Type tg)")
        case Panicked
        then show ?thesis using Some False ni by (simp add: decodeStruct.simps(2))
      next
        case (Returned e p)
        obtain b y where p: "p = (b, y)" by (cases p)
        have ni': "\<not> isImplicit (Field (exported f) (Some tg) y)"
          using False by (simp add: isImplicit_def)
        show ?thesis
          using Some False Returned p Cons.IH[of b] ni ni'
          by (simp add: decodeStruct.simps(2) onFields_consField_keep)
      qed
    qed
  qed
qed

lemma decodeValue_slice_elem:
  assumes "underlying x = VSlice z xs" "Kind z \<noteq> KUint8" "binaryUnmarshaler E x = None"
    "decodeValue E v True False z = Returned None elem"
  shows "decodeValue E v True False x = Returned None (withUnderlying x (VSlice z (xs @ [elem])))"
proof -
  have "Kind x = KSlice" using assms(1) Kind_underlying[of x] by simp
  then show ?thesis using assms by (simp add: decodeValue.simps[of E v True False x])
qed

section \<open>The size limit (C2)\<close>

text \<open>
  What \<^verbatim>\<open>readTLV\<close> and the first pass of \<^verbatim>\<open>decode\<close>'s loop do with a record whose declared
  length exceeds 8800: \<^verbatim>\<open>readTLV\<close> returns \<^verbatim>\<open>ErrPacketTooLarge\<close> and leaves the stream right after
  the length, no payload byte is read, whatever follows; \<^verbatim>\<open>decode\<close> returns that error when
  the record is the first it reads in the call.
\<close>

lemma readTLV_too_large:
  assumes "readVarNum buf = (Inr t, b1)" and "readVarNum b1 = (Inr l, b2)" and "unat l > 8800"
  shows "readTLV buf = (Inl ErrPacketTooLarge, b2)
       \<and> decode E buf addr ro x t = Returned (Some ErrPacketTooLarge) (b2, x)"
proof -
  have r: "readTLV buf = (Inl ErrPacketTooLarge, b2)"
    using assms by (simp add: readTLV_def maxSize_def)
  have p: "Peek E buf = t" using assms(1) by (rule Peek_readVarNum)
  show ?thesis
    using r decodeLoop_read_error[OF p r, of False addr ro x] by (simp add: decode_def)
qed

text \<open>
  C2 does not hold of the code. In each stream below the record \<^verbatim>\<open>1, 0xFD, 0x22, 0x61\<close> has
  type 1 and declares 8801 bytes. \<^verbatim>\<open>readTLV\<close> refuses it with \<^verbatim>\<open>ErrPacketTooLarge\<close> before reading
  any payload byte, and \<^verbatim>\<open>decode\<close> returns that error when the record comes first. When the
  record is the second of a repeated field, the \<^verbatim>\<open>if once { err = nil }\<close> at the end of
  \<^verbatim>\<open>decode\<close> clears the error: \<^verbatim>\<open>decode\<close> returns nil with the stream left right after the
  oversize length, and the composite decode of a required repeated field goes on and reads
  the bytes that follow, the payload of the refused record, as the record of the next field.
\<close>

theorem size_exceeded_cleared_after_first_element:
  "readTLV [1, 0xFD, 0x22, 0x61, 2, 1, 9] = (Inl ErrPacketTooLarge, [2, 1, 9])
   \<and> decode env0 [1, 0xFD, 0x22, 0x61, 2, 1, 9] True False (VSlice (VUint64 0) []) 1
       = Returned (Some ErrPacketTooLarge) ([2, 1, 9], VSlice (VUint64 0) [])
   \<and> decode env0 [1, 1, 7, 1, 0xFD, 0x22, 0x61, 2, 1, 9] True False (VSlice (VUint64 0) []) 1
       = Returned None ([2, 1, 9], VSlice (VUint64 0) [VUint64 7])
   \<and> decodeStruct env0 [1, 1, 7, 1, 0xFD, 0x22, 0x61, 2, 1, 9] True False
        [Field True (required 1) (VSlice (VUint64 0) []), Field True (required 2) (VUint64 0)]
       = Returned None ([],
        [Field True (required 1) (VSlice (VUint64 0) [VUint64 7]),
         Field True (required 2) (VUint64 9)])"
  by (simp add: run_simps)

section \<open>Repeated fields (C3)\<close>

text \<open>
  C3. For a slice whose elements are not bytes (and whose type has no \<^verbatim>\<open>UnmarshalBinary\<close>):
  when the peeked type does not match at the start, \<^verbatim>\<open>decode\<close> returns the type-mismatch error
  and touches neither the stream nor the value; when the peeked type does not match, or the
  stream has ended, after an element was decoded, the loop stops without error; when the
  peeked type matches and the record's payload decodes to an element, the record is
  consumed, the element is appended, and the loop goes on with \<^verbatim>\<open>once\<close> set.
\<close>

theorem decode_repeated:
  assumes "underlying x = VSlice z xs" and "Kind z \<noteq> KUint8" and "binaryUnmarshaler E x = None"
  shows "(Peek E buf \<noteq> t \<longrightarrow>
            decode E buf addr ro x t = Returned (Some ErrUnexpectedType) (buf, x))
       \<and> (Peek E buf \<noteq> t \<or> buf = [] \<longrightarrow>
            decodeLoop E True buf addr ro x t = Returned None (buf, x))
       \<and> (Peek E buf = t \<and> readTLV buf = (Inr (t', v), buf') \<and>
            decodeValue E v True False z = Returned None elem \<longrightarrow>
            decode E buf True False x t =
              decodeLoop E True buf' True False (withUnderlying x (VSlice z (xs @ [elem]))) t
          \<and> decodeLoop E True buf True False x t =
              decodeLoop E True buf' True False (withUnderlying x (VSlice z (xs @ [elem]))) t)"
proof -
  have k: "Kind x = KSlice" using assms(1) Kind_underlying[of x] by simp
  have ek: "elemKind x \<noteq> KUint8" using assms(1,2) elemKind_underlying[of x] by simp
  have step: "decodeLoop E once buf True False x t =
      decodeLoop E True buf' True False (withUnderlying x (VSlice z (xs @ [elem]))) t"
    if "Peek E buf = t" "readTLV buf = (Inr (t', v), buf')"
      "decodeValue E v True False z = Returned None elem" for once
    using that k ek decodeValue_slice_elem[OF assms that(3)]
    by (simp add: decodeLoop.simps[of E once buf True False x t])
  show ?thesis
    using step[of False] step[of True]
    by (auto simp: decode_def decodeLoop_mismatch decodeLoop_once_Nil)
qed

theorem decode_repeated_witness:
  "decode env0 [6, 0] True False (VSlice (VUint64 0) []) 5
     = Returned (Some ErrUnexpectedType) ([6, 0], VSlice (VUint64 0) [])
   \<and> decodeLoop env0 True [6, 0] True False (VSlice (VUint64 0) [VUint64 7]) 5
     = Returned None ([6, 0], VSlice (VUint64 0) [VUint64 7])
   \<and> decode env0 [5, 1, 7, 6, 0] True False (VSlice (VUint64 0) []) 5
     = decodeLoop env0 True [6, 0] True False (VSlice (VUint64 0) [VUint64 7]) 5"
  using decode_repeated[of "VSlice (VUint64 0) []" "VUint64 0" "[]" env0 "[6, 0]" 5 True False]
    decode_repeated[of "VSlice (VUint64 0) [VUint64 7]" "VUint64 0" "[VUint64 7]" env0 "[6, 0]" 5
      True False]
    decode_repeated[of "VSlice (VUint64 0) []" "VUint64 0" "[]" env0 "[5, 1, 7, 6, 0]" 5
      True False 5 "[7]" "[6, 0]" "VUint64 7"]
  by (simp add: Peek_def readVarNum_def readFull_def readTLV_def maxSize_def decodeValue.simps
      decodeUint64_def env0_def)

section \<open>Optional and required fields (C6)\<close>

text \<open>
  C6. Let the fields \<open>pre\<close> before the field \<open>f\<close> decode without error and leave the stream
  \<open>buf1\<close>, and let the type number of \<open>f\<close> not be the one peeked on \<open>buf1\<close>. When \<open>f\<close> is
  optional, the composite decode goes on: its result is the result of decoding the fields
  after \<open>f\<close> from \<open>buf1\<close>, with \<open>f\<close> unchanged (at its zero value in a fresh destination) in its
  place. When \<open>f\<close> is required, the composite decode aborts with the type-mismatch error.
\<close>

theorem decodeStruct_optional_absent:
  assumes "decodeStruct E buf addr ro pre = Returned None (buf1, pre')"
    and "tag f = Some tg" and "\<not> Implicit tg" and "Peek E buf1 \<noteq> Type tg"
  shows "decodeStruct E buf addr ro (pre @ f # post) =
     (if Optional tg then prependFields (pre' @ [f]) (decodeStruct E buf1 addr ro post)
      else Returned (Some ErrUnexpectedType) (buf1, pre' @ f # post))"
proof -
  have "decodeStruct E buf1 addr ro (f # post) =
      (if Optional tg then prependFields [f] (decodeStruct E buf1 addr ro post)
       else Returned (Some ErrUnexpectedType) (buf1, f # post))"
    using assms(2-4)
    by (cases f) (simp add: decodeStruct.simps(2) decodeLoop_mismatch consField_prepend)
  then show ?thesis
    using assms(1) by (simp add: decodeStruct_append prependFields_prependFields)
qed

theorem decodeStruct_optional_absent_witness:
  "decodeStruct env0 [1, 1, 7, 3, 1, 9] True False
      [Field True (required 1) (VUint64 0), Field True (optional 2) (VString []),
       Field True (required 3) (VUint64 0)]
     = Returned None ([],
      [Field True (required 1) (VUint64 7), Field True (optional 2) (VString []),
       Field True (required 3) (VUint64 9)])
   \<and> decodeStruct env0 [1, 1, 7, 3, 1, 9] True False
      [Field True (required 1) (VUint64 0), Field True (required 2) (VString []),
       Field True (required 3) (VUint64 0)]
     = Returned (Some ErrUnexpectedType) ([3, 1, 9],
      [Field True (required 1) (VUint64 7), Field True (required 2) (VString []),
       Field True (required 3) (VUint64 0)])"
  using decodeStruct_optional_absent[of env0 "[1, 1, 7, 3, 1, 9]" True False
      "[Field True (required 1) (VUint64 0)]" "[3, 1, 9]" "[Field True (required 1) (VUint64 7)]"
      "Field True (optional 2) (VString [])"
      "\<lparr>Type = 2, Optional = True, Implicit = False\<rparr>" "[Field True (required 3) (VUint64 0)]"]
    decodeStruct_optional_absent[of env0 "[1, 1, 7, 3, 1, 9]" True False
      "[Field True (required 1) (VUint64 0)]" "[3, 1, 9]" "[Field True (required 1) (VUint64 7)]"
      "Field True (required 2) (VString [])"
      "\<lparr>Type = 2, Optional = False, Implicit = False\<rparr>" "[Field True (required 3) (VUint64 0)]"]
  by (simp add: run_simps)

section \<open>Implicit fields (C7)\<close>

text \<open>
  C7. When the composite decode reaches an implicit field \<open>f\<close> with the stream \<open>buf1\<close>, it goes
  on with the fields after \<open>f\<close> from the same stream \<open>buf1\<close> and leaves \<open>f\<close> as it is: nothing
  is read for it. Over the whole composite, leaving the implicit fields out of the struct
  changes nothing else: the decoder returns the same error and the same stream, and the
  other fields get the same values, in declaration order.
\<close>

theorem decodeStruct_implicit:
  "(tag f = Some tg \<and> Implicit tg \<and> decodeStruct E buf addr ro pre = Returned None (buf1, pre')
      \<longrightarrow> decodeStruct E buf addr ro (pre @ f # post) =
            prependFields (pre' @ [f]) (decodeStruct E buf1 addr ro post))
   \<and> onFields (filter (\<lambda>f. \<not> isImplicit f)) (decodeStruct E buf addr ro fs) =
       decodeStruct E buf addr ro (filter (\<lambda>f. \<not> isImplicit f) fs)"
  by (simp add: decodeStruct_append decodeStruct.simps(2) consField_prepend
      prependFields_prependFields decodeStruct_filter)

theorem decodeStruct_implicit_witness:
  "decodeStruct env0 [1, 1, 7, 3, 1, 9] True False
      [Field True (required 1) (VUint64 0), Field False implicit (VUint8 5),
       Field True (required 3) (VUint64 0)]
     = Returned None ([],
      [Field True (required 1) (VUint64 7), Field False implicit (VUint8 5),
       Field True (required 3) (VUint64 9)])"
  using decodeStruct_implicit[of "Field False implicit (VUint8 5)"
      "\<lparr>Type = 0, Optional = False, Implicit = True\<rparr>"
      env0 "[1, 1, 7, 3, 1, 9]" True False "[Field True (required 1) (VUint64 0)]"
      "[3, 1, 9]" "[Field True (required 1) (VUint64 7)]" "[Field True (required 3) (VUint64 0)]"]
  by (simp add: run_simps)

section \<open>The override hook (C8)\<close>

text \<open>
  C8 does not hold of the code. \<^verbatim>\<open>decodeValue\<close> asks whether \<^verbatim>\<open>value.Interface()\<close> is a
  \<^verbatim>\<open>BinaryUnmarshaler\<close>. For the field \<^verbatim>\<open>Special special\<close> of the package's test the value is a
  \<^verbatim>\<open>special\<close>, whose method set lacks the pointer-receiver method: the assertion fails, the
  hook is not called, and the struct case runs instead, which never stores the payload in
  \<^verbatim>\<open>F\<close>, whatever \<^verbatim>\<open>parseTag\<close> makes of the missing tag and whatever \<^verbatim>\<open>Peek\<close> returns at the end of
  the stream. The hook is called for a \<^verbatim>\<open>*special\<close> that points to a value, and panics for a nil
  \<^verbatim>\<open>*special\<close>.
\<close>

theorem special_by_value_not_unmarshaled:
  "binaryUnmarshaler (testEnv eof) (special untagged 0) = None
   \<and> (\<exists>e. decodeValue (testEnv eof) [1] True False (special untagged 0)
          = Returned e (special untagged 0))
   \<and> decodeValue (testEnv eof) [1] True False
        (VPtr (special untagged 0) (Some (special untagged 0)))
       = Returned None (VPtr (special untagged 0) (Some (special untagged 1)))
   \<and> decodeValue (testEnv eof) [1] True False (VPtr (special untagged 0) None) = Panicked"
proof -
  have a: "binaryUnmarshaler (testEnv eof) (special untagged 0) = None"
    by (simp add: testEnv_def special_def)
  have r1: "readVarNum [1] = (Inr 1, [])" by (simp add: readVarNum_def readFull_def)
  have r2: "readTLV [1] = (Inl EOF, [])" by (simp add: readTLV_def readVarNum_def readFull_def)
  have p: "Peek (testEnv eof) [1] = 1" by (simp add: Peek_def r1)
  have l: "\<exists>e. decodeLoop (testEnv eof) False [1] True False (VUint8 0) t
      = Returned e (if t = 1 then [] else [1], VUint8 0)" for t
    by (cases "t = 1") (simp_all add: decodeLoop.simps p r2)
  have s: "\<exists>e b. decodeStruct (testEnv eof) [1] True False [Field True untagged (VUint8 0)]
      = Returned e (b, [Field True untagged (VUint8 0)])"
  proof (cases untagged)
    case None
    then show ?thesis by (simp add: decodeStruct.simps(2))
  next
    case (Some tg)
    obtain e where "decodeLoop (testEnv eof) False [1] True False (VUint8 0) (Type tg)
      = Returned e (if Type tg = 1 then [] else [1], VUint8 0)" using l by blast
    then show ?thesis using Some by (simp add: decodeStruct.simps(2))
  qed
  have b: "\<exists>e. decodeValue (testEnv eof) [1] True False (special untagged 0)
          = Returned e (special untagged 0)"
  proof -
    obtain e b where "decodeStruct (testEnv eof) [1] True False [Field True untagged (VUint8 0)]
      = Returned e (b, [Field True untagged (VUint8 0)])" using s by blast
    then show ?thesis
      using a
      by (simp add: decodeValue.simps[of _ _ _ _ "special untagged 0"]) (simp add: special_def)
  qed
  have c: "decodeValue (testEnv eof) [1] True False
        (VPtr (special untagged 0) (Some (special untagged 0)))
       = Returned None (VPtr (special untagged 0) (Some (special untagged 1)))"
    by (simp add: decodeValue.simps special_def testEnv_def)
  have d: "decodeValue (testEnv eof) [1] True False (VPtr (special untagged 0) None) = Panicked"
    by (simp add: decodeValue.simps special_def testEnv_def)
  show ?thesis using a b c d by blast
qed

section \<open>Pointers (C9)\<close>

text \<open>
  C9 does not hold of the code. The branch the code calls \<^verbatim>\<open>uninitialized\<close> is taken when
  \<^verbatim>\<open>value.CanSet()\<close>, not when the pointer is nil. A settable pointer whose referent is present
  (here a \<^verbatim>\<open>*[]uint64\<close> pointing to \<^verbatim>\<open>[5]\<close>) gets a fresh referent, into which the record is
  decoded: the result points to \<^verbatim>\<open>[7]\<close>, not to \<^verbatim>\<open>[5, 7]\<close>. Only a pointer that is not
  settable is decoded in place, and then a nil pointer panics instead of being allocated.
\<close>

theorem settable_pointer_fresh_referent:
  "decodeValue env0 [7] True False
      (VPtr (VSlice (VUint64 0) []) (Some (VSlice (VUint64 0) [VUint64 5])))
     = Returned None (VPtr (VSlice (VUint64 0) []) (Some (VSlice (VUint64 0) [VUint64 7])))
   \<and> decodeValue env0 [7] False False
      (VPtr (VSlice (VUint64 0) []) (Some (VSlice (VUint64 0) [VUint64 5])))
     = Returned None
        (VPtr (VSlice (VUint64 0) []) (Some (VSlice (VUint64 0) [VUint64 5, VUint64 7])))
   \<and> decodeValue env0 [7] False False (VPtr (VSlice (VUint64 0) []) None) = Panicked"
  by (simp add: decodeValue.simps decodeUint64_def env0_def)

section \<open>Nested composites (C10)\<close>

text \<open>
  C10. A record whose declared length is within the limit and within the stream is consumed
  exactly: \<^verbatim>\<open>readTLV\<close> returns the payload of that length and leaves the stream right after
  it. When the record is decoded into a struct, the fields are decoded from the payload alone,
  and whatever they leave of the payload (\<open>rest\<close>) is dropped: the result of \<^verbatim>\<open>decodeValue\<close> and
  of \<^verbatim>\<open>decode\<close> is the error of \<^verbatim>\<open>decodeStruct\<close> (none when the fields decode) and the decoded
  fields, for every \<open>rest\<close>.
\<close>

theorem nested_composite_payload:
  assumes "readVarNum buf = (Inr t, b1)" and "readVarNum b1 = (Inr l, b2)"
    and "unat l \<le> 8800" and "unat l \<le> length b2"
    and "binaryUnmarshaler E x = None" and "underlying x = VStruct fs"
    and "decodeStruct E (take (unat l) b2) addr False fs = Returned e (rest, fs')"
  shows "readTLV buf = (Inr (t, take (unat l) b2), drop (unat l) b2)
       \<and> decodeValue E (take (unat l) b2) addr False x = Returned e (withUnderlying x (VStruct fs'))
       \<and> decode E buf addr False x t =
           Returned e (drop (unat l) b2, withUnderlying x (VStruct fs'))"
proof -
  have r: "readTLV buf = (Inr (t, take (unat l) b2), drop (unat l) b2)"
    using assms(1-4) by (simp add: readTLV_def maxSize_def readFull_def)
  have p: "Peek E buf = t" using assms(1) by (rule Peek_readVarNum)
  have k: "Kind x = KStruct" using assms(6) Kind_underlying[of x] by simp
  have v: "decodeValue E (take (unat l) b2) addr False x
      = Returned e (withUnderlying x (VStruct fs'))"
    using assms(5-7) k by (simp add: decodeValue.simps[of E _ addr False x])
  show ?thesis
    using r p k v
    by (cases e) (simp_all add: decode_def decodeLoop.simps[of E False buf addr False x t])
qed

theorem nested_composite_payload_witness:
  "readTLV [9, 5, 1, 1, 7, 0xAA, 0xBB, 4, 0] = (Inr (9, [1, 1, 7, 0xAA, 0xBB]), [4, 0])
   \<and> decodeStruct env0 [1, 1, 7, 0xAA, 0xBB] True False [Field True (required 1) (VUint64 0)]
       = Returned None ([0xAA, 0xBB], [Field True (required 1) (VUint64 7)])
   \<and> decode env0 [9, 5, 1, 1, 7, 0xAA, 0xBB, 4, 0] True False
        (VStruct [Field True (required 1) (VUint64 0)]) 9
       = Returned None ([4, 0], VStruct [Field True (required 1) (VUint64 7)])"
  using nested_composite_payload[of "[9, 5, 1, 1, 7, 0xAA, 0xBB, 4, 0]" 9
      "[5, 1, 1, 7, 0xAA, 0xBB, 4, 0]" 5
      "[1, 1, 7, 0xAA, 0xBB, 4, 0]" env0 "VStruct [Field True (required 1) (VUint64 0)]"
      "[Field True (required 1) (VUint64 0)]" True None "[0xAA, 0xBB]"
      "[Field True (required 1) (VUint64 7)]"]
  by (simp add: run_simps)

section \<open>Round trip (C1)\<close>

subsection \<open>The encoder's VarNum and records are read back\<close>

lemma bigEndian_snoc: "bigEndian (xs @ [b]) = bigEndian xs * 256 + unat b"
  by (simp add: bigEndian_def)

lemma length_beBytes [simp]: "length (beBytes k n) = k"
  by (induction k arbitrary: n) simp_all

lemma unat_of_nat_byte: "unat (of_nat m :: byte) = m mod 256"
  by (simp add: unat_of_nat)

lemma bigEndian_beBytes: "bigEndian (beBytes k n) = n mod 256 ^ k"
proof (induction k arbitrary: n)
  case 0
  show ?case by (simp add: bigEndian_def)
next
  case (Suc k)
  have "n mod (256 * 256 ^ k) = 256 * (n div 256 mod 256 ^ k) + n mod 256"
    by (rule mod_mult2_eq)
  then show ?case using Suc[of "n div 256"]
    by (simp add: bigEndian_snoc unat_of_nat_byte)
qed

lemma beBytes_value:
  "n < 256 ^ k \<Longrightarrow> length bs = k \<Longrightarrow> bs = beBytes k n \<Longrightarrow> bigEndian bs = n"
  by (simp add: bigEndian_beBytes)














subsection \<open>Defined types without methods, and the loop over the records of a repeated field\<close>


lemma withUnderlying_underlying [simp]: "withUnderlying x (underlying x) = x"
  by (induction x rule: underlying.induct) simp_all






subsection \<open>Every value of the round-trip class is read back\<close>

lemma Kind_zeroOf [simp]: "Kind (zeroOf x) = Kind x"
  by (induction x rule: Kind.induct) simp_all

lemma elemKind_zeroOf [simp]: "elemKind (zeroOf x) = elemKind x"
  by (induction x rule: elemKind.induct) simp_all



lemma rtOne_emits: "rtOne x \<Longrightarrow> emits x"
  by (induction x rule: emits.induct) simp_all









end
